theory Spec2Isabelle
  imports Main "HOL-Library.Sublist" "HOL-Library.Multiset"
begin

section \<open>Data model of app-event-watcher.ts\<close>

text \<open>
  The watcher is an asynchronous TypeScript class. A promise that settles is a value of
  \<open>'a settled\<close>: \<open>Resolved v\<close> when it fulfils, \<open>Rejected e\<close> when it rejects (an
  \<open>await\<close> of it then throws \<open>e\<close>).

  Anything can be thrown. The code only ever reads \<open>error.message\<close> of what it catches
  (typed \<open>any\<close>), so three kinds of thrown value are told apart: an \<open>Error\<close> with its
  message, a value other than \<open>undefined\<close> and \<open>null\<close> that has no \<open>message\<close> (a thrown
  string, say), and \<open>undefined\<close> or \<open>null\<close>. Reading \<open>message\<close> gives the message of the
  first, \<open>undefined\<close> (\<open>None\<close>) for the second, and throws a \<open>TypeError\<close> for the third;
  the text of that error is the engine's and nothing depends on it.
\<close>

datatype JsThrown = JsError string | JsOther | JsNullish

datatype 'a settled = Resolved 'a | Rejected JsThrown

definition TypeError_text :: string where
  "TypeError_text = ''Cannot read properties of undefined (reading message)''"

fun message :: "JsThrown \<Rightarrow> string option settled" where
  "message (JsError m) = Resolved (Some m)"
| "message JsOther = Resolved None"
| "message JsNullish = Rejected (JsError TypeError_text)"

datatype EventType = Updated | Deleted | Created

text \<open>
  \<open>ExtensionInstance\<close> is imported; the watcher reads its \<open>handle\<close>, its
  \<open>isESBuildExtension\<close> flag, the value of \<open>getOutputFolderId()\<close> and calls
  \<open>buildForBundle\<close>, which is a collaborator (see \<open>collaborators\<close> below).
\<close>

record ExtensionInstance =
  handle :: string
  outputFolderId :: string
  isESBuildExtension :: bool

record AppLinkedInterface =
  directory :: string
  realExtensions :: "ExtensionInstance list"

record ExtensionEvent =
  type :: EventType
  extension :: ExtensionInstance

record AppEvent =
  app :: AppLinkedInterface
  extensionEvents :: "ExtensionEvent list"
  path :: string
  startTime :: "nat \<times> nat"

text \<open>
  \<open>type ExtensionBuildResult = {status: 'ok'; handle} | {status: 'error'; error; handle}\<close>.
  The \<open>error\<close> is what \<open>error.message\<close> gave, so it can be \<open>undefined\<close> (\<open>None\<close>).
\<close>

datatype ExtensionBuildResult =
    StatusOk string
  | StatusError "string option" string

fun result_handle :: "ExtensionBuildResult \<Rightarrow> string" where
  "result_handle (StatusOk h) = h"
| "result_handle (StatusError e h) = h"

text \<open>
  The result of an esbuild \<open>rebuild()\<close>: a list of messages, each with a \<open>text\<close>
  (the field \<open>text'\<close>).
\<close>

record Message =
  text' :: string

record BuildResult =
  errors :: "Message list"

datatype BuildContext = BuildContext (rebuild: "BuildResult settled")

text \<open>
  \<open>ExtensionBuildOptions\<close> as \<open>buildExtension\<close> fills it (the two output streams are left
  out: they carry no data of the watcher).
\<close>

record ExtensionBuildOptions =
  app :: AppLinkedInterface
  useTasks :: bool
  environment :: string
  appURL :: "string option"

text \<open>
  The effects the watcher has on the world, in the order in which it starts them.
  Listeners are opaque functions, known by a number; invoking one is an effect.
\<close>

datatype action =
    FileExists string
  | Rmdir string
  | Mkdir string
  | CreateContexts "ExtensionInstance list"
  | UpdateContexts AppEvent
  | Rebuild string
  | BuildForBundle ExtensionInstance ExtensionBuildOptions string
  | StartFileWatcher AppLinkedInterface
  | OutputDebug string
  | StderrWrite string
  | CallReady nat
  | CallAll nat AppEvent

text \<open>
  The points at which \<open>start()\<close> is suspended in an \<open>await\<close>, each holding what the awaited
  call will deliver.
\<close>

datatype start_pc =
    AwaitFileExists bool
  | AwaitRmdir "unit settled"
  | AwaitMkdir "unit settled"
  | AwaitCreateContexts "unit settled"
  | AwaitBuildExtensions "ExtensionBuildResult list settled"
  | AwaitStartFileWatcher "unit settled"

text \<open>
  The fields of the class, the two listener lists of the \<open>EventEmitter\<close> it extends, and
  the world it acts on: the directories that exist (\<open>fs\<close>), the effects so far (\<open>trace\<close>)
  and the suspended \<open>start()\<close> calls (\<open>pending\<close>). \<open>contexts\<close> is
  \<open>this.esbuildManager.contexts\<close>.
\<close>

record AppEventWatcher =
  buildOutputPath :: string
  app :: AppLinkedInterface
  appURL :: "string option"
  contexts :: "string \<rightharpoonup> BuildContext"
  started :: bool
  ready :: bool
  readyListeners :: "nat list"
  allListeners :: "nat list"
  fs :: "string set"
  trace :: "action list"
  pending :: "start_pc list"

text \<open>
  The collaborators the watcher calls and whose code is elsewhere: the artifact's own
  \<open>buildForBundle\<close>, the esbuild context manager and the file watcher. Each is a parameter:
  any behaviour of theirs is allowed, rejection included.
\<close>

record collaborators =
  buildForBundle :: "ExtensionInstance \<Rightarrow> ExtensionBuildOptions \<Rightarrow> string \<Rightarrow> unit settled"
  createContexts ::
    "ExtensionInstance list \<Rightarrow> (string \<rightharpoonup> BuildContext) \<Rightarrow> (string \<rightharpoonup> BuildContext) settled"
  updateContexts ::
    "AppEvent \<Rightarrow> (string \<rightharpoonup> BuildContext) \<Rightarrow> (string \<rightharpoonup> BuildContext) settled"
  startFileWatcher :: "AppLinkedInterface \<Rightarrow> unit settled"

section \<open>Helpers of cli-kit and of the runtime\<close>

text \<open>\<open>Array.prototype.join\<close> on strings.\<close>

fun join :: "string \<Rightarrow> string list \<Rightarrow> string" where
  "join sep [] = []"
| "join sep [x] = x"
| "join sep (x # y # ys) = x @ sep @ join sep (y # ys)"

text \<open>
  \<open>Promise.all\<close>: fulfils with all the values, in the order of the promises, when every
  promise fulfils, and rejects with the first rejection otherwise.
\<close>

fun Promise_all :: "'a settled list \<Rightarrow> 'a list settled" where
  "Promise_all [] = Resolved []"
| "Promise_all (Rejected e # ps) = Rejected e"
| "Promise_all (Resolved v # ps) =
     (case Promise_all ps of Rejected e \<Rightarrow> Rejected e | Resolved vs \<Rightarrow> Resolved (v # vs))"

text \<open>
  Modelled from the spec: \<open>joinPath\<close> of \<open>@shopify/cli-kit/node/path\<close> is missing; the spec
  calls it a deterministic join of the output root and the folder id. The segments are joined
  with a slash.
\<close>

definition joinPath :: "string list \<Rightarrow> string" where
  "joinPath segments = join ''/'' segments"

text \<open>
  Modelled from the spec: \<open>fileExists\<close>, \<open>mkdir\<close> and \<open>rmdir\<close> of
  \<open>@shopify/cli-kit/node/fs\<close> are missing. The spec says of \<open>rmdir\<close> with \<open>force\<close> that it
  force-removes the directory and that removing a directory that does not exist is not an
  error. A removal takes the directory and everything below it; the promise is the first
  component, the directories left are the second.
\<close>

definition fileExists :: "string \<Rightarrow> string set \<Rightarrow> bool" where
  "fileExists p dirs = (p \<in> dirs)"

definition mkdir :: "string \<Rightarrow> string set \<Rightarrow> unit settled \<times> string set" where
  "mkdir p dirs = (Resolved (), insert p dirs)"

definition rmdir :: "string \<Rightarrow> string set \<Rightarrow> unit settled \<times> string set" where
  "rmdir p dirs = (Resolved (), {q \<in> dirs. \<not> (q = p \<or> prefix (p @ ''/'') q)})"

text \<open>
  Modelled from the spec: \<open>useConcurrentOutputContext\<close> of
  \<open>@shopify/cli-kit/node/ui/components\<close> is missing; the spec calls it an output scope keyed by
  the artifact's handle, a presentational concern. It runs the callback and returns what the
  callback returns.
\<close>

definition useConcurrentOutputContext :: "string \<Rightarrow> bool \<Rightarrow> 'a \<Rightarrow> 'a" where
  "useConcurrentOutputContext outputPrefix stripAnsi callback = callback"

section \<open>The build dispatcher\<close>

text \<open>
  \<open>buildExtension\<close>: the options are built from the fields of the watcher and
  \<open>buildForBundle\<close> is called with them and the output path. The first component is the
  promise, the second the effects started.
\<close>

definition buildExtension ::
  "collaborators \<Rightarrow> AppEventWatcher \<Rightarrow> ExtensionInstance \<Rightarrow> unit settled \<times> action list" where
  "buildExtension env w ext =
     (let buildOptions = \<lparr>ExtensionBuildOptions.app = AppEventWatcher.app w, useTasks = False,
                          environment = ''development'',
                          ExtensionBuildOptions.appURL = AppEventWatcher.appURL w\<rparr>
      in (buildForBundle env ext buildOptions (buildOutputPath w),
          [BuildForBundle ext buildOptions (buildOutputPath w)]))"

text \<open>
  The body of the \<open>try\<close> in \<open>buildExtensions\<close>: with a context for the handle, its
  \<open>rebuild()\<close> is awaited and a result with errors is thrown as one \<open>Error\<close>, the texts joined
  by a newline; without one, \<open>buildExtension\<close> is awaited. Then the ok result is returned.
\<close>

definition build_try ::
  "collaborators \<Rightarrow> AppEventWatcher \<Rightarrow> ExtensionInstance \<Rightarrow>
     ExtensionBuildResult settled \<times> action list" where
  "build_try env w ext =
     (case contexts w (handle ext) of
        Some ctx \<Rightarrow>
          (case rebuild ctx of
             Rejected e \<Rightarrow> (Rejected e, [Rebuild (handle ext)])
           | Resolved result \<Rightarrow>
               if length (errors result) \<noteq> 0
               then (Rejected (JsError (join [CHR 0x0A] (map text' (errors result)))),
                     [Rebuild (handle ext)])
               else (Resolved (StatusOk (handle ext)), [Rebuild (handle ext)]))
      | None \<Rightarrow>
          (case buildExtension env w ext of
             (Rejected e, acts) \<Rightarrow> (Rejected e, acts)
           | (Resolved u, acts) \<Rightarrow> (Resolved (StatusOk (handle ext)), acts)))"

text \<open>
  The \<open>catch\<close>: what the \<open>try\<close> threw becomes an error result with what reading its
  \<open>message\<close> gives; when that reading throws, the \<open>catch\<close> throws and the promise of the
  extension rejects.
\<close>

definition build_one ::
  "collaborators \<Rightarrow> AppEventWatcher \<Rightarrow> ExtensionInstance \<Rightarrow>
     ExtensionBuildResult settled \<times> action list" where
  "build_one env w ext =
     useConcurrentOutputContext (handle ext) False
       (case build_try env w ext of
          (Resolved r, acts) \<Rightarrow> (Resolved r, acts)
        | (Rejected error, acts) \<Rightarrow>
            (case message error of
               Resolved m \<Rightarrow> (Resolved (StatusError m (handle ext)), acts)
             | Rejected typeError \<Rightarrow> (Rejected typeError, acts)))"

text \<open>
  \<open>buildExtensions\<close>: one promise per extension, started in the order of the list, and
  \<open>Promise.all\<close> of them.
\<close>

definition buildExtensions ::
  "collaborators \<Rightarrow> AppEventWatcher \<Rightarrow> ExtensionInstance list \<Rightarrow>
     ExtensionBuildResult list settled \<times> AppEventWatcher" where
  "buildExtensions env w extensions =
     (let promises = map (build_one env w) extensions
      in (Promise_all (map fst promises),
          w\<lparr>trace := trace w @ concat (map snd promises)\<rparr>))"

section \<open>The build output store\<close>

text \<open>The removals of \<open>deleteExtensionsBuildOutput\<close>, started in the order of the list.\<close>

fun rmdir_all :: "string list \<Rightarrow> string set \<Rightarrow> unit settled list \<times> string set" where
  "rmdir_all [] dirs = ([], dirs)"
| "rmdir_all (p # ps) dirs =
     (case rmdir p dirs of (r, dirs1) \<Rightarrow>
        (case rmdir_all ps dirs1 of (rs, dirs2) \<Rightarrow> (r # rs, dirs2)))"

definition deleteExtensionsBuildOutput ::
  "AppEventWatcher \<Rightarrow> ExtensionInstance list \<Rightarrow> unit list settled \<times> AppEventWatcher" where
  "deleteExtensionsBuildOutput w extensions =
     (let outputPaths = map (\<lambda>ext. joinPath [buildOutputPath w, outputFolderId ext]) extensions
      in case rmdir_all outputPaths (fs w) of (promises, dirs) \<Rightarrow>
           (Promise_all promises, w\<lparr>fs := dirs, trace := trace w @ map Rmdir outputPaths\<rparr>))"

section \<open>Listeners\<close>

text \<open>
  \<open>EventEmitter\<close>: \<open>addListener\<close> appends, also a listener that is there already;
  \<open>emit\<close> calls the listeners of the event in the order in which they were added.
  A listener is an opaque function: the call is an effect, and the listener is taken to
  return without throwing and without calling the watcher.
\<close>

definition emit_ready :: "AppEventWatcher \<Rightarrow> AppEventWatcher" where
  "emit_ready w = w\<lparr>trace := trace w @ map CallReady (readyListeners w)\<rparr>"

definition emit_all :: "AppEventWatcher \<Rightarrow> AppEvent \<Rightarrow> AppEventWatcher" where
  "emit_all w appEvent = w\<lparr>trace := trace w @ map (\<lambda>l. CallAll l appEvent) (allListeners w)\<rparr>"

definition onEvent :: "AppEventWatcher \<Rightarrow> nat \<Rightarrow> AppEventWatcher" where
  "onEvent w listener = w\<lparr>allListeners := allListeners w @ [listener]\<rparr>"

definition onStart :: "AppEventWatcher \<Rightarrow> nat \<Rightarrow> AppEventWatcher" where
  "onStart w listener =
     (let w1 = w\<lparr>readyListeners := readyListeners w @ [listener]\<rparr>
      in if ready w1 then emit_ready w1 else w1)"

section \<open>The batch handler\<close>

text \<open>
  The function given to \<open>then\<close> in the callback of \<open>startFileWatcher\<close>; its argument is what
  \<open>handleWatcherEvents\<close> resolved to (\<open>None\<close> is \<open>undefined\<close>).
\<close>

definition handle_then ::
  "collaborators \<Rightarrow> AppEventWatcher \<Rightarrow> AppEvent option \<Rightarrow> unit settled \<times> AppEventWatcher" where
  "handle_then env w appEvent =
     (case appEvent of
        None \<Rightarrow> (Resolved (), w)
      | Some ae \<Rightarrow>
          (let w1 = w\<lparr>AppEventWatcher.app := AppEvent.app ae\<rparr>
           in if length (extensionEvents ae) = 0
              then (Resolved (),
                    w1\<lparr>trace := trace w1 @
                       [OutputDebug ''Change detected, but no extensions were affected'']\<rparr>)
              else
                (case updateContexts env ae (contexts w1) of
                   Rejected e \<Rightarrow> (Rejected e, w1\<lparr>trace := trace w1 @ [UpdateContexts ae]\<rparr>)
                 | Resolved ctxs \<Rightarrow>
                     (let w2 = w1\<lparr>contexts := ctxs, trace := trace w1 @ [UpdateContexts ae]\<rparr>;
                          createdOrUpdatedExtensions =
                            map extension
                              (filter (\<lambda>extEvent. type extEvent \<noteq> Deleted) (extensionEvents ae))
                      in case buildExtensions env w2 createdOrUpdatedExtensions of
                           (Rejected e, w3) \<Rightarrow> (Rejected e, w3)
                         | (Resolved results, w3) \<Rightarrow>
                             (let deletedExtensions =
                                    map extension
                                      (filter (\<lambda>extEvent. type extEvent = Deleted)
                                         (extensionEvents ae))
                              in case deleteExtensionsBuildOutput w3 deletedExtensions of
                                   (Rejected e, w4) \<Rightarrow> (Rejected e, w4)
                                 | (Resolved u, w4) \<Rightarrow> (Resolved (), emit_all w4 ae))))))"

text \<open>
  The function given to \<open>catch\<close>: what was thrown is written to \<open>stderr\<close> with its
  message (the template prints \<open>undefined\<close> as that word); when reading the message
  throws, nothing is written.
\<close>

definition catch_write :: "JsThrown \<Rightarrow> action list" where
  "catch_write error =
     (case message error of
        Resolved (Some m) \<Rightarrow> [StderrWrite (''Error handling event: '' @ m)]
      | Resolved None \<Rightarrow> [StderrWrite (''Error handling event: '' @ ''undefined'')]
      | Rejected typeError \<Rightarrow> [])"

text \<open>
  The callback: \<open>handleWatcherEvents(...).then(...).catch(...)\<close>, for what
  \<open>handleWatcherEvents\<close> settled to.
\<close>

definition watcher_callback ::
  "collaborators \<Rightarrow> AppEventWatcher \<Rightarrow> AppEvent option settled \<Rightarrow> AppEventWatcher" where
  "watcher_callback env w handled =
     (case (case handled of
              Rejected e \<Rightarrow> (Rejected e, w)
            | Resolved appEvent \<Rightarrow> handle_then env w appEvent) of
        (Resolved u, w') \<Rightarrow> w'
      | (Rejected error, w') \<Rightarrow> w'\<lparr>trace := trace w' @ catch_write error\<rparr>)"

section \<open>start()\<close>

text \<open>
  A call of \<open>start()\<close> runs until its first \<open>await\<close>: it returns at once when \<open>started\<close> is
  set, and otherwise sets it, calls \<open>fileExists\<close> and is suspended.
\<close>

definition start_call :: "AppEventWatcher \<Rightarrow> AppEventWatcher" where
  "start_call w =
     (if started w then w
      else (let w1 = w\<lparr>started := True\<rparr>
            in w1\<lparr>trace := trace w1 @ [FileExists (buildOutputPath w1)],
                  pending := pending w1 @
                    [AwaitFileExists (fileExists (buildOutputPath w1) (fs w1))]\<rparr>))"

definition start_mkdir :: "AppEventWatcher \<Rightarrow> start_pc option \<times> AppEventWatcher" where
  "start_mkdir w =
     (case mkdir (buildOutputPath w) (fs w) of (r, dirs) \<Rightarrow>
        (Some (AwaitMkdir r), w\<lparr>fs := dirs, trace := trace w @ [Mkdir (buildOutputPath w)]\<rparr>))"

text \<open>
  A suspended \<open>start()\<close> goes on from its \<open>await\<close> to the next one: the result is where it is
  suspended next (\<open>None\<close> when the call is over, by returning or by throwing what the awaited
  promise rejected with) and the watcher after it.
\<close>

fun start_resume ::
  "collaborators \<Rightarrow> AppEventWatcher \<Rightarrow> start_pc \<Rightarrow> start_pc option \<times> AppEventWatcher" where
  "start_resume env w (AwaitFileExists exists) =
     (if exists
      then (case rmdir (buildOutputPath w) (fs w) of (r, dirs) \<Rightarrow>
              (Some (AwaitRmdir r),
               w\<lparr>fs := dirs, trace := trace w @ [Rmdir (buildOutputPath w)]\<rparr>))
      else start_mkdir w)"
| "start_resume env w (AwaitRmdir (Rejected e)) = (None, w)"
| "start_resume env w (AwaitRmdir (Resolved u)) = start_mkdir w"
| "start_resume env w (AwaitMkdir (Rejected e)) = (None, w)"
| "start_resume env w (AwaitMkdir (Resolved u)) =
     (let exts = filter isESBuildExtension (realExtensions (AppEventWatcher.app w))
      in case createContexts env exts (contexts w) of
           Rejected e \<Rightarrow>
             (Some (AwaitCreateContexts (Rejected e)),
              w\<lparr>trace := trace w @ [CreateContexts exts]\<rparr>)
         | Resolved ctxs \<Rightarrow>
             (Some (AwaitCreateContexts (Resolved ())),
              w\<lparr>contexts := ctxs, trace := trace w @ [CreateContexts exts]\<rparr>))"
| "start_resume env w (AwaitCreateContexts (Rejected e)) = (None, w)"
| "start_resume env w (AwaitCreateContexts (Resolved u)) =
     (case buildExtensions env w (realExtensions (AppEventWatcher.app w)) of
        (r, w1) \<Rightarrow> (Some (AwaitBuildExtensions r), w1))"
| "start_resume env w (AwaitBuildExtensions (Rejected e)) = (None, w)"
| "start_resume env w (AwaitBuildExtensions (Resolved results)) =
     (Some (AwaitStartFileWatcher (startFileWatcher env (AppEventWatcher.app w))),
      w\<lparr>trace := trace w @ [StartFileWatcher (AppEventWatcher.app w)]\<rparr>)"
| "start_resume env w (AwaitStartFileWatcher (Rejected e)) = (None, w)"
| "start_resume env w (AwaitStartFileWatcher (Resolved u)) =
     (None, emit_ready (w\<lparr>ready := True\<rparr>))"

section \<open>Reading the effects\<close>

text \<open>The effects a watcher \<open>w'\<close> has had since it was \<open>w\<close>.\<close>

definition effects_since :: "AppEventWatcher \<Rightarrow> AppEventWatcher \<Rightarrow> action list" where
  "effects_since w w' = drop (length (trace w)) (trace w')"

text \<open>
  What a list of effects holds of each kind: the handles built (by either backend), the
  directories removed, made and looked for, the creations of esbuild contexts, the
  subscriptions to the file watcher, and the calls of the listeners of each of the two
  events.
\<close>

fun builds :: "action list \<Rightarrow> string list" where
  "builds [] = []"
| "builds (Rebuild h # acts) = h # builds acts"
| "builds (BuildForBundle ext opts p # acts) = handle ext # builds acts"
| "builds (a # acts) = builds acts"

fun purges :: "action list \<Rightarrow> string list" where
  "purges [] = []"
| "purges (Rmdir p # acts) = p # purges acts"
| "purges (a # acts) = purges acts"

fun mkdirs :: "action list \<Rightarrow> string list" where
  "mkdirs [] = []"
| "mkdirs (Mkdir p # acts) = p # mkdirs acts"
| "mkdirs (a # acts) = mkdirs acts"

fun exists_checks :: "action list \<Rightarrow> string list" where
  "exists_checks [] = []"
| "exists_checks (FileExists p # acts) = p # exists_checks acts"
| "exists_checks (a # acts) = exists_checks acts"

fun context_creations :: "action list \<Rightarrow> ExtensionInstance list list" where
  "context_creations [] = []"
| "context_creations (CreateContexts exts # acts) = exts # context_creations acts"
| "context_creations (a # acts) = context_creations acts"

fun subscriptions :: "action list \<Rightarrow> AppLinkedInterface list" where
  "subscriptions [] = []"
| "subscriptions (StartFileWatcher a # acts) = a # subscriptions acts"
| "subscriptions (a # acts) = subscriptions acts"

fun ready_calls :: "action list \<Rightarrow> nat list" where
  "ready_calls [] = []"
| "ready_calls (CallReady l # acts) = l # ready_calls acts"
| "ready_calls (a # acts) = ready_calls acts"

fun notifications :: "action list \<Rightarrow> (nat \<times> AppEvent) list" where
  "notifications [] = []"
| "notifications (CallAll l ae # acts) = (l, ae) # notifications acts"
| "notifications (a # acts) = notifications acts"

text \<open>
  The promise of one extension fulfils unless its build rejected with \<open>undefined\<close> or
  \<open>null\<close>.
\<close>

definition fulfils :: "collaborators \<Rightarrow> AppEventWatcher \<Rightarrow> ExtensionInstance \<Rightarrow> bool" where
  "fulfils env w ext = (case fst (build_one env w ext) of Resolved r \<Rightarrow> True | Rejected e \<Rightarrow> False)"

section \<open>A session\<close>

text \<open>
  What can happen to a watcher, one event at a time: a call of \<open>start()\<close>, a suspended
  \<open>start()\<close> going on (the one at the given place among the suspended ones; the promises
  settle in any order), a call of \<open>onStart\<close> or \<open>onEvent\<close>, and the file watcher calling back
  with what \<open>handleWatcherEvents\<close> settled to. The file watcher has the callback from the
  call of \<open>startFileWatcher\<close> on and cannot call back before; a batch is handled in one step.
\<close>

datatype event =
    Start
  | Resume nat
  | OnStart nat
  | OnEvent nat
  | WatcherCallback "AppEvent option settled"

definition subscribed :: "AppEventWatcher \<Rightarrow> bool" where
  "subscribed w = (subscriptions (trace w) \<noteq> [])"

fun exec :: "collaborators \<Rightarrow> AppEventWatcher \<Rightarrow> event \<Rightarrow> AppEventWatcher" where
  "exec env w Start = start_call w"
| "exec env w (Resume i) =
     (if i < length (pending w)
      then (case start_resume env w (pending w ! i) of
              (None, w') \<Rightarrow> w'\<lparr>pending := take i (pending w) @ drop (Suc i) (pending w)\<rparr>
            | (Some pc, w') \<Rightarrow> w'\<lparr>pending := (pending w)[i := pc]\<rparr>)
      else w)"
| "exec env w (OnStart listener) = onStart w listener"
| "exec env w (OnEvent listener) = onEvent w listener"
| "exec env w (WatcherCallback handled) =
     (if subscribed w then watcher_callback env w handled else w)"

definition run :: "collaborators \<Rightarrow> AppEventWatcher \<Rightarrow> event list \<Rightarrow> AppEventWatcher" where
  "run env w events = foldl (exec env) w events"

text \<open>
  The constructor: the output path is the one given or \<open>.shopify/bundle\<close> under the
  directory of the app; nothing is started, no listener is registered and the esbuild manager
  has no context. \<open>dirs\<close> are the directories that exist when the watcher is made.
\<close>

definition new_AppEventWatcher ::
  "AppLinkedInterface \<Rightarrow> string option \<Rightarrow> string option \<Rightarrow> string set \<Rightarrow> AppEventWatcher" where
  "new_AppEventWatcher a url outputPath dirs =
     \<lparr>buildOutputPath =
        (case outputPath of Some p \<Rightarrow> p | None \<Rightarrow> joinPath [directory a, ''.shopify'', ''bundle'']),
      AppEventWatcher.app = a, AppEventWatcher.appURL = url, contexts = Map.empty,
      started = False, ready = False, readyListeners = [], allListeners = [],
      fs = dirs, trace = [], pending = []\<rparr>"

section \<open>Sessions and start()\<close>

text \<open>
  The effects that the calls of \<open>start()\<close> have in a session: those of the events that are
  a call of \<open>start()\<close> or a step of a suspended one, in their order.
\<close>

definition start_step_effects ::
  "collaborators \<Rightarrow> AppEventWatcher \<Rightarrow> event \<Rightarrow> action list" where
  "start_step_effects env w ev =
     (case ev of
        Start \<Rightarrow> effects_since w (exec env w ev)
      | Resume i \<Rightarrow> effects_since w (exec env w ev)
      | _ \<Rightarrow> [])"

fun start_effects :: "collaborators \<Rightarrow> AppEventWatcher \<Rightarrow> event list \<Rightarrow> action list" where
  "start_effects env w [] = []"
| "start_effects env w (ev # events) =
     start_step_effects env w ev @ start_effects env (exec env w ev) events"

text \<open>
  A session in which no listener is given to \<open>onStart\<close> when the watcher is ready; anything
  else may happen, in any order. The predicate follows the watcher through the events.
\<close>

fun no_late_onStart :: "collaborators \<Rightarrow> AppEventWatcher \<Rightarrow> event list \<Rightarrow> bool" where
  "no_late_onStart env w [] = True"
| "no_late_onStart env w (ev # events) =
     ((case ev of OnStart listener \<Rightarrow> \<not> ready w | _ \<Rightarrow> True)
      \<and> no_late_onStart env (exec env w ev) events)"

text \<open>
  How far a \<open>start()\<close> has come, by the \<open>await\<close> it is suspended in (\<open>6\<close> is the end of
  \<open>start()\<close>), and what holds of a watcher \<open>w\<close> that was made as \<open>v\<close> and of the effects
  \<open>se\<close> that the calls of \<open>start()\<close> have had since: while it is not started, and when its
  one \<open>start()\<close> has come as far as \<open>n\<close>.
\<close>

fun stage :: "start_pc \<Rightarrow> nat" where
  "stage (AwaitFileExists b) = 0"
| "stage (AwaitRmdir r) = 1"
| "stage (AwaitMkdir r) = 2"
| "stage (AwaitCreateContexts r) = 3"
| "stage (AwaitBuildExtensions r) = 4"
| "stage (AwaitStartFileWatcher r) = 5"

definition not_started_inv :: "AppEventWatcher \<Rightarrow> AppEventWatcher \<Rightarrow> action list \<Rightarrow> bool" where
  "not_started_inv v w se \<longleftrightarrow>
     \<not> started w \<and> \<not> ready w \<and> pending w = [] \<and> trace w = [] \<and> se = []
     \<and> buildOutputPath w = buildOutputPath v \<and> fs w = fs v
     \<and> AppEventWatcher.app w = AppEventWatcher.app v"

definition start_inv ::
  "AppEventWatcher \<Rightarrow> AppEventWatcher \<Rightarrow> action list \<Rightarrow> nat \<Rightarrow> bool" where
  "start_inv v w se n \<longleftrightarrow>
     started w \<and> buildOutputPath w = buildOutputPath v
     \<and> (n < 5 \<longrightarrow> AppEventWatcher.app w = AppEventWatcher.app v \<and> \<not> subscribed w)
     \<and> n \<le> 6 \<and> (ready w \<longleftrightarrow> n = 6)
     \<and> (case pending w of
          [] \<Rightarrow> True
        | [pc] \<Rightarrow> stage pc = n \<and> (n = 0 \<longrightarrow> pc = AwaitFileExists (buildOutputPath v \<in> fs v))
        | _ \<Rightarrow> False)
     \<and> (n = 1 \<longrightarrow> buildOutputPath v \<in> fs v)
     \<and> exists_checks se = [buildOutputPath v]
     \<and> purges se = (if 1 \<le> n \<and> buildOutputPath v \<in> fs v then [buildOutputPath v] else [])
     \<and> mkdirs se = (if 2 \<le> n then [buildOutputPath v] else [])
     \<and> context_creations se =
          (if 3 \<le> n
           then [filter isESBuildExtension (realExtensions (AppEventWatcher.app v))] else [])
     \<and> builds se =
          (if 4 \<le> n then map handle (realExtensions (AppEventWatcher.app v)) else [])
     \<and> subscriptions se = (if 5 \<le> n then [AppEventWatcher.app v] else [])
     \<and> (n < 6 \<longrightarrow> ready_calls se = [])
     \<and> prefix (ready_calls se) (readyListeners w)"

definition tracked :: "AppEventWatcher \<Rightarrow> AppEventWatcher \<Rightarrow> action list \<Rightarrow> bool" where
  "tracked v w se \<longleftrightarrow> not_started_inv v w se \<or> (\<exists>n. start_inv v w se n)"

text \<open>
  Only \<open>start()\<close> looks for the output directory, makes it, creates the esbuild contexts
  and subscribes to the file watcher: the effects of these kinds that a watcher has had are
  those of the calls of \<open>start()\<close>; and no \<open>onStart\<close> listener is called while the watcher
  is not ready.
\<close>

definition start_alone :: "AppEventWatcher \<Rightarrow> action list \<Rightarrow> bool" where
  "start_alone w se \<longleftrightarrow>
     exists_checks (trace w) = exists_checks se
     \<and> mkdirs (trace w) = mkdirs se
     \<and> context_creations (trace w) = context_creations se
     \<and> subscriptions (trace w) = subscriptions se
     \<and> (\<not> ready w \<longrightarrow> ready_calls (trace w) = [])"

text \<open>
  The calls of the \<open>onStart\<close> listeners so far are none while the watcher is not ready and
  one of each listener registered when it is.
\<close>

definition ready_once :: "AppEventWatcher \<Rightarrow> bool" where
  "ready_once w \<longleftrightarrow> ready_calls (trace w) = (if ready w then readyListeners w else [])"

section \<open>A sample app\<close>

text \<open>
  Three extensions, of which \<open>b\<close> is built by esbuild; the build of \<open>a\<close> throws
  \<open>Error("boom")\<close>, the rebuild of \<open>b\<close> reports two errors, every other call of the app
  succeeds. A fourth extension, \<open>z\<close>, is not of the app: its build rejects with
  \<open>undefined\<close>.
\<close>

definition extA :: ExtensionInstance where
  "extA = \<lparr>handle = ''a'', outputFolderId = ''a-out'', isESBuildExtension = False\<rparr>"

definition extB :: ExtensionInstance where
  "extB = \<lparr>handle = ''b'', outputFolderId = ''b-out'', isESBuildExtension = True\<rparr>"

definition extC :: ExtensionInstance where
  "extC = \<lparr>handle = ''c'', outputFolderId = ''c-out'', isESBuildExtension = False\<rparr>"

definition extZ :: ExtensionInstance where
  "extZ = \<lparr>handle = ''z'', outputFolderId = ''z-out'', isESBuildExtension = False\<rparr>"

definition sampleApp :: AppLinkedInterface where
  "sampleApp = \<lparr>directory = ''/app'', realExtensions = [extA, extB, extC]\<rparr>"

definition ctxB :: BuildContext where
  "ctxB = BuildContext (Resolved \<lparr>errors = [\<lparr>text' = ''e1''\<rparr>, \<lparr>text' = ''e2''\<rparr>]\<rparr>)"

definition sampleEnv :: collaborators where
  "sampleEnv =
     \<lparr>buildForBundle =
        (\<lambda>ext opts p. if handle ext = ''a'' then Rejected (JsError ''boom'')
                      else if handle ext = ''z'' then Rejected JsNullish else Resolved ()),
      createContexts = (\<lambda>exts ctxs. Resolved (fold (\<lambda>ext m. m(handle ext \<mapsto> ctxB)) exts ctxs)),
      updateContexts = (\<lambda>ae ctxs. Resolved ctxs),
      startFileWatcher = (\<lambda>a. Resolved ())\<rparr>"

definition sampleWatcher :: AppEventWatcher where
  "sampleWatcher = new_AppEventWatcher sampleApp None None {}"

text \<open>The sample watcher with an \<open>onStart\<close> listener, after one \<open>start()\<close> has ended.\<close>

definition readyWatcher :: AppEventWatcher where
  "readyWatcher =
     run sampleEnv (onStart sampleWatcher 1) [Start, Resume 0, Resume 0, Resume 0, Resume 0, Resume 0]"

text \<open>
  A watcher with two \<open>onEvent\<close> listeners, a context for \<open>b\<close> and output on disk, and two
  batches for it: one with a created, an updated and a deleted extension, one with no event
  and another app.
\<close>

definition batchWatcher :: AppEventWatcher where
  "batchWatcher =
     (onEvent (onEvent sampleWatcher 1) 2)
       \<lparr>contexts := [''b'' \<mapsto> ctxB],
        fs := {''/app/.shopify/bundle'', ''/app/.shopify/bundle/c-out'',
               ''/app/.shopify/bundle/c-out/dist'', ''/app/.shopify/bundle/a-out''}\<rparr>"

definition sampleBatch :: AppEvent where
  "sampleBatch =
     \<lparr>AppEvent.app = sampleApp,
      extensionEvents = [\<lparr>type = Created, extension = extA\<rparr>,
                         \<lparr>type = Updated, extension = extB\<rparr>,
                         \<lparr>type = Deleted, extension = extC\<rparr>],
      path = ''/app/extensions/b/index.js'', startTime = (0, 0)\<rparr>"



definition emptyBatch :: AppEvent where
  "emptyBatch =
     \<lparr>AppEvent.app = \<lparr>directory = ''/app'', realExtensions = [extA]\<rparr>,
      extensionEvents = [], path = ''/app/README.md'', startTime = (0, 0)\<rparr>"

text \<open>
  A watcher of the sample app made when the output directory is there from an earlier
  session, and a session on it: two listeners are registered, one before the first
  \<open>start()\<close> and one while it runs; \<open>start()\<close> is called five times, while the first call
  is suspended and after it has ended; at the end a batch arrives. In the second session a
  third listener is registered after that.
\<close>

definition staleWatcher :: AppEventWatcher where
  "staleWatcher =
     new_AppEventWatcher sampleApp None None
       {''/app/.shopify/bundle'', ''/app/.shopify/bundle/old-out''}"

definition sampleSession :: "event list" where
  "sampleSession =
     [OnStart 1, Start, Start, Resume 0, OnStart 2, Resume 1, Start, Resume 0, OnEvent 7,
      Resume 0, Start, Resume 0, Resume 0, Start, Resume 0,
      WatcherCallback (Resolved (Some sampleBatch)), Start]"

definition lateSession :: "event list" where
  "lateSession = sampleSession @ [OnStart 3, Start, Resume 0]"

section \<open>The build dispatcher: one promise for each artifact\<close>

lemma Promise_all_resolved: "Promise_all (map Resolved vs) = Resolved vs"
  by (induction vs) auto



lemma build_one_actions: "snd (build_one env w ext) = snd (build_try env w ext)"
  by (auto simp: build_one_def useConcurrentOutputContext_def split: prod.splits settled.splits)


lemma build_try_no_context:
  "contexts w (handle ext) = None \<Longrightarrow>
     build_try env w ext =
       (case fst (buildExtension env w ext) of
          Rejected e \<Rightarrow> Rejected e
        | Resolved u \<Rightarrow> Resolved (StatusOk (handle ext)),
        snd (buildExtension env w ext))"
  by (auto simp: build_try_def split: prod.splits settled.splits)

lemma build_try_context:
  "contexts w (handle ext) = Some ctx \<Longrightarrow> snd (build_try env w ext) = [Rebuild (handle ext)]"
  by (auto simp: build_try_def split: settled.splits)



lemma fulfils_iff: "fulfils env w ext \<longleftrightarrow> (\<exists>r. fst (build_one env w ext) = Resolved r)"
  by (auto simp: fulfils_def split: settled.splits)

lemma buildExtensions_promise:
  "fst (buildExtensions env w exts) = Promise_all (map (\<lambda>ext. fst (build_one env w ext)) exts)"
  by (simp add: buildExtensions_def Let_def comp_def)

lemma buildExtensions_watcher:
  "snd (buildExtensions env w exts) =
     w\<lparr>trace := trace w @ concat (map (\<lambda>ext. snd (build_one env w ext)) exts)\<rparr>"
  by (simp add: buildExtensions_def Let_def comp_def)


lemma buildExtensions_fulfils:
  assumes "\<forall>ext \<in> set exts. fulfils env w ext"
  shows "\<exists>results. fst (buildExtensions env w exts) = Resolved results"
proof -
  have "\<exists>vs. map (\<lambda>ext. fst (build_one env w ext)) exts = map Resolved vs"
    using assms
  proof (induction exts)
    case Nil
    then show ?case by simp
  next
    case (Cons ext exts)
    then obtain vs where "map (\<lambda>ext. fst (build_one env w ext)) exts = map Resolved vs" by auto
    moreover from Cons.prems obtain r where "fst (build_one env w ext) = Resolved r"
      by (auto simp: fulfils_iff)
    ultimately have "map (\<lambda>ext. fst (build_one env w ext)) (ext # exts) = map Resolved (r # vs)"
      by simp
    then show ?case by blast
  qed
  then obtain vs where "map (\<lambda>ext. fst (build_one env w ext)) exts = map Resolved vs" ..
  then show ?thesis by (simp add: buildExtensions_promise Promise_all_resolved)
qed


lemma effects_since_append: "trace w' = trace w @ acts \<Longrightarrow> effects_since w w' = acts"
  by (simp add: effects_since_def)


text \<open>
  Claim C1 does not hold of the code. The \<open>catch\<close> of \<open>buildExtensions\<close> reads
  \<open>error.message\<close>; when a build rejects with \<open>undefined\<close> (or \<open>null\<close>) that reading throws,
  the promise of the extension rejects and so does \<open>Promise.all\<close>: the call as a whole
  rejects and the result of the other extension, whose build succeeded, is not returned.
\<close>

theorem nullish_rejection_escapes:
  "buildForBundle sampleEnv extZ
      \<lparr>ExtensionBuildOptions.app = sampleApp, useTasks = False, environment = ''development'',
       ExtensionBuildOptions.appURL = None\<rparr> ''/app/.shopify/bundle'' = Rejected JsNullish
   \<and> fst (build_one sampleEnv sampleWatcher extC) = Resolved (StatusOk ''c'')
   \<and> fst (buildExtensions sampleEnv sampleWatcher [extC, extZ])
       = Rejected (JsError TypeError_text)"
  by (simp add: buildExtensions_def build_one_def build_try_def buildExtension_def
      useConcurrentOutputContext_def sampleEnv_def sampleWatcher_def new_AppEventWatcher_def
      extC_def extZ_def)







section \<open>What a batch does\<close>

lemma builds_append [simp]: "builds (xs @ ys) = builds xs @ builds ys"
  by (induction xs rule: builds.induct) auto

lemma purges_append [simp]: "purges (xs @ ys) = purges xs @ purges ys"
  by (induction xs rule: purges.induct) auto

lemma notifications_append [simp]:
  "notifications (xs @ ys) = notifications xs @ notifications ys"
  by (induction xs rule: notifications.induct) auto

lemma mkdirs_append [simp]: "mkdirs (xs @ ys) = mkdirs xs @ mkdirs ys"
  by (induction xs rule: mkdirs.induct) auto

lemma subscriptions_append [simp]:
  "subscriptions (xs @ ys) = subscriptions xs @ subscriptions ys"
  by (induction xs rule: subscriptions.induct) auto

lemma ready_calls_append [simp]: "ready_calls (xs @ ys) = ready_calls xs @ ready_calls ys"
  by (induction xs rule: ready_calls.induct) auto

lemma exists_checks_append [simp]:
  "exists_checks (xs @ ys) = exists_checks xs @ exists_checks ys"
  by (induction xs rule: exists_checks.induct) auto

lemma context_creations_append [simp]:
  "context_creations (xs @ ys) = context_creations xs @ context_creations ys"
  by (induction xs rule: context_creations.induct) auto

lemma build_one_kinds [simp]:
  "builds (snd (build_one env w ext)) = [handle ext]"
  "purges (snd (build_one env w ext)) = []"
  "notifications (snd (build_one env w ext)) = []"
  "mkdirs (snd (build_one env w ext)) = []"
  "subscriptions (snd (build_one env w ext)) = []"
  "ready_calls (snd (build_one env w ext)) = []"
  "exists_checks (snd (build_one env w ext)) = []"
  "context_creations (snd (build_one env w ext)) = []"
  by (cases "contexts w (handle ext)";
      simp add: build_one_actions build_try_no_context build_try_context buildExtension_def
        Let_def)+

lemma build_all_kinds [simp]:
  "builds (concat (map (\<lambda>ext. snd (build_one env w ext)) exts)) = map handle exts"
  "purges (concat (map (\<lambda>ext. snd (build_one env w ext)) exts)) = []"
  "notifications (concat (map (\<lambda>ext. snd (build_one env w ext)) exts)) = []"
  "mkdirs (concat (map (\<lambda>ext. snd (build_one env w ext)) exts)) = []"
  "subscriptions (concat (map (\<lambda>ext. snd (build_one env w ext)) exts)) = []"
  "ready_calls (concat (map (\<lambda>ext. snd (build_one env w ext)) exts)) = []"
  "exists_checks (concat (map (\<lambda>ext. snd (build_one env w ext)) exts)) = []"
  "context_creations (concat (map (\<lambda>ext. snd (build_one env w ext)) exts)) = []"
  by (induction exts) auto

lemma catch_write_kinds [simp]:
  "builds (catch_write e) = []" "purges (catch_write e) = []"
  "notifications (catch_write e) = []" "ready_calls (catch_write e) = []"
  by (cases e; simp add: catch_write_def)+

lemma Rmdir_kinds [simp]:
  "builds (map Rmdir ps) = []" "purges (map Rmdir ps) = ps" "notifications (map Rmdir ps) = []"
  "ready_calls (map Rmdir ps) = []"
  by (induction ps) auto

lemma CallAll_kinds [simp]:
  "builds (map (\<lambda>l. CallAll l ae) ls) = []" "purges (map (\<lambda>l. CallAll l ae) ls) = []"
  "notifications (map (\<lambda>l. CallAll l ae) ls) = map (\<lambda>l. (l, ae)) ls"
  "ready_calls (map (\<lambda>l. CallAll l ae) ls) = []"
  by (induction ls) auto

lemma CallReady_kinds [simp]:
  "mkdirs (map CallReady ls) = []" "builds (map CallReady ls) = []"
  "subscriptions (map CallReady ls) = []" "ready_calls (map CallReady ls) = ls"
  "exists_checks (map CallReady ls) = []" "purges (map CallReady ls) = []"
  "context_creations (map CallReady ls) = []"
  by (induction ls) auto

lemma buildExtension_trace [simp]:
  "buildExtension env (w\<lparr>trace := t\<rparr>) ext = buildExtension env w ext"
  by (simp add: buildExtension_def Let_def)

lemma build_try_trace [simp]: "build_try env (w\<lparr>trace := t\<rparr>) ext = build_try env w ext"
  by (cases "contexts w (handle ext)") (simp_all add: build_try_def)

lemma build_one_trace [simp]: "build_one env (w\<lparr>trace := t\<rparr>) ext = build_one env w ext"
  by (simp add: build_one_def)

lemma rmdir_all_resolved: "fst (rmdir_all ps dirs) = map (\<lambda>p. Resolved ()) ps"
  by (induction ps arbitrary: dirs) (simp_all add: rmdir_def case_prod_beta)

lemma rmdir_all_dirs:
  "snd (rmdir_all ps dirs) = {q \<in> dirs. \<forall>p \<in> set ps. \<not> (q = p \<or> prefix (p @ ''/'') q)}"
  by (induction ps arbitrary: dirs) (auto simp: rmdir_def case_prod_beta)

lemma Promise_all_units:
  "Promise_all (map (\<lambda>p. Resolved ()) ps) = Resolved (map (\<lambda>p. ()) ps)"
  by (induction ps) auto

lemma deleteExtensionsBuildOutput_eq:
  "deleteExtensionsBuildOutput w exts =
     (Resolved (map (\<lambda>p. ()) exts),
      w\<lparr>fs := snd (rmdir_all
               (map (\<lambda>ext. joinPath [buildOutputPath w, outputFolderId ext]) exts) (fs w)),
        trace := trace w
          @ map Rmdir (map (\<lambda>ext. joinPath [buildOutputPath w, outputFolderId ext]) exts)\<rparr>)"
proof -
  let ?ps = "map (\<lambda>ext. joinPath [buildOutputPath w, outputFolderId ext]) exts"
  have "Promise_all (fst (rmdir_all ?ps (fs w))) = Resolved (map (\<lambda>p. ()) exts)"
    using Promise_all_units [of ?ps] by (simp add: rmdir_all_resolved comp_def)
  then show ?thesis
    by (simp add: deleteExtensionsBuildOutput_def Let_def case_prod_beta)
qed

lemma buildExtensions_trace [simp]:
  "fst (buildExtensions env (w\<lparr>trace := t\<rparr>) exts) = fst (buildExtensions env w exts)"
  by (simp add: buildExtensions_promise)

lemma buildExtensions_pair:
  "buildExtensions env w exts =
     (Promise_all (map (\<lambda>ext. fst (build_one env w ext)) exts),
      w\<lparr>trace := trace w @ concat (map (\<lambda>ext. snd (build_one env w ext)) exts)\<rparr>)"
  by (simp add: prod_eq_iff buildExtensions_watcher buildExtensions_promise)

text \<open>
  A batch with events, when \<open>updateContexts\<close> fulfils: the snapshot and the contexts are
  replaced and the extensions of the events that are not deletions are built. When
  \<open>buildExtensions\<close> fulfils, the output of those of the deletions is removed and then the
  \<open>onEvent\<close> listeners are called; when it rejects, the \<open>catch\<close> writes. When
  \<open>updateContexts\<close> rejects, the \<open>catch\<close> writes and that is all.
\<close>

lemma watcher_callback_batch:
  assumes "extensionEvents ae \<noteq> []" and "updateContexts env ae (contexts w) = Resolved ctxs"
    and "fst (buildExtensions env (w\<lparr>AppEventWatcher.app := AppEvent.app ae, contexts := ctxs\<rparr>)
           (map extension (filter (\<lambda>extEvent. type extEvent \<noteq> Deleted) (extensionEvents ae))))
         = Resolved results"
  shows "watcher_callback env w (Resolved (Some ae)) =
     w\<lparr>AppEventWatcher.app := AppEvent.app ae, contexts := ctxs,
       fs := snd (rmdir_all
              (map (\<lambda>ext. joinPath [buildOutputPath w, outputFolderId ext])
                 (map extension
                    (filter (\<lambda>extEvent. type extEvent = Deleted) (extensionEvents ae))))
              (fs w)),
       trace := trace w @ [UpdateContexts ae]
         @ concat (map (\<lambda>ext. snd (build_one env
                      (w\<lparr>AppEventWatcher.app := AppEvent.app ae, contexts := ctxs\<rparr>) ext))
             (map extension
                (filter (\<lambda>extEvent. type extEvent \<noteq> Deleted) (extensionEvents ae))))
         @ map Rmdir (map (\<lambda>ext. joinPath [buildOutputPath w, outputFolderId ext])
                 (map extension
                    (filter (\<lambda>extEvent. type extEvent = Deleted) (extensionEvents ae))))
         @ map (\<lambda>l. CallAll l ae) (allListeners w)\<rparr>"
  using assms
  by (simp add: watcher_callback_def handle_then_def Let_def buildExtensions_pair
      buildExtensions_promise deleteExtensionsBuildOutput_eq emit_all_def)

lemma watcher_callback_batch_rejected:
  assumes "extensionEvents ae \<noteq> []" and "updateContexts env ae (contexts w) = Resolved ctxs"
    and "fst (buildExtensions env (w\<lparr>AppEventWatcher.app := AppEvent.app ae, contexts := ctxs\<rparr>)
           (map extension (filter (\<lambda>extEvent. type extEvent \<noteq> Deleted) (extensionEvents ae))))
         = Rejected e"
  shows "watcher_callback env w (Resolved (Some ae)) =
     w\<lparr>AppEventWatcher.app := AppEvent.app ae, contexts := ctxs,
       trace := trace w @ [UpdateContexts ae]
         @ concat (map (\<lambda>ext. snd (build_one env
                      (w\<lparr>AppEventWatcher.app := AppEvent.app ae, contexts := ctxs\<rparr>) ext))
             (map extension
                (filter (\<lambda>extEvent. type extEvent \<noteq> Deleted) (extensionEvents ae))))
         @ catch_write e\<rparr>"
  using assms
  by (simp add: watcher_callback_def handle_then_def Let_def buildExtensions_pair
      buildExtensions_promise)

lemma watcher_callback_update_rejected:
  assumes "extensionEvents ae \<noteq> []" and "updateContexts env ae (contexts w) = Rejected e"
  shows "watcher_callback env w (Resolved (Some ae)) =
     w\<lparr>AppEventWatcher.app := AppEvent.app ae,
       trace := trace w @ [UpdateContexts ae] @ catch_write e\<rparr>"
  using assms by (simp add: watcher_callback_def handle_then_def)







lemma empty_batch_logs:
  assumes "extensionEvents ae = []"
  shows "watcher_callback env w (Resolved (Some ae)) =
           w\<lparr>AppEventWatcher.app := AppEvent.app ae,
             trace := trace w @ [OutputDebug ''Change detected, but no extensions were affected'']\<rparr>"
  using assms by (simp add: watcher_callback_def handle_then_def)

text \<open>
  Claim C4. For a batch with no event, the handler builds nothing, removes nothing and calls
  no listener: all it does is write the debug line, and the watcher it leaves differs from the
  one it found by that line and by the snapshot of the batch.
\<close>

theorem empty_batch_only_logs:
  assumes "extensionEvents ae = []"
  shows "watcher_callback env w (Resolved (Some ae)) =
           w\<lparr>AppEventWatcher.app := AppEvent.app ae,
             trace := trace w @ [OutputDebug ''Change detected, but no extensions were affected'']\<rparr>"
  using assms by (simp add: watcher_callback_def handle_then_def)

theorem empty_batch_only_logs_witness:
  "extensionEvents emptyBatch = []
   \<and> effects_since batchWatcher
        (watcher_callback sampleEnv batchWatcher (Resolved (Some emptyBatch)))
       = [OutputDebug ''Change detected, but no extensions were affected'']
   \<and> fs (watcher_callback sampleEnv batchWatcher (Resolved (Some emptyBatch)))
       = fs batchWatcher"
proof -
  have h: "extensionEvents emptyBatch = []" by (simp add: emptyBatch_def)
  from empty_batch_only_logs [OF h, of sampleEnv batchWatcher] h
  show ?thesis by (simp add: effects_since_def)
qed

text \<open>
  Claim C10. Whatever a batch that is not \<open>undefined\<close> holds and whatever the handler then
  does, the snapshot of the watcher is that of the batch afterwards; for a batch with no
  event this is so although nothing is built, nothing is removed and no listener is called.
\<close>

theorem snapshot_replaced_first:
  "AppEventWatcher.app (watcher_callback env w (Resolved (Some ae))) = AppEvent.app ae
   \<and> (extensionEvents ae = [] \<longrightarrow>
        builds (effects_since w (watcher_callback env w (Resolved (Some ae)))) = []
        \<and> purges (effects_since w (watcher_callback env w (Resolved (Some ae)))) = []
        \<and> notifications (effects_since w (watcher_callback env w (Resolved (Some ae)))) = []
        \<and> fs (watcher_callback env w (Resolved (Some ae))) = fs w)"
  by (simp add: watcher_callback_def handle_then_def Let_def buildExtensions_watcher
      deleteExtensionsBuildOutput_eq emit_all_def effects_since_def case_prod_beta
      split: settled.splits)

theorem snapshot_replaced_first_witness:
  "extensionEvents emptyBatch = []
   \<and> AppEventWatcher.app batchWatcher = sampleApp
   \<and> AppEvent.app emptyBatch \<noteq> sampleApp
   \<and> AppEventWatcher.app (watcher_callback sampleEnv batchWatcher (Resolved (Some emptyBatch)))
       = AppEvent.app emptyBatch
   \<and> builds (effects_since batchWatcher
        (watcher_callback sampleEnv batchWatcher (Resolved (Some emptyBatch)))) = []"
proof -
  have h: "extensionEvents emptyBatch = []" "AppEventWatcher.app batchWatcher = sampleApp"
    "AppEvent.app emptyBatch \<noteq> sampleApp"
    by (simp_all add: emptyBatch_def batchWatcher_def sampleWatcher_def new_AppEventWatcher_def
        onEvent_def sampleApp_def)
  from snapshot_replaced_first [of sampleEnv batchWatcher emptyBatch] h
  show ?thesis by simp
qed

section \<open>Purging the build output\<close>

text \<open>
  Claim C8. \<open>deleteExtensionsBuildOutput\<close> fulfils whatever directories exist, so also
  for an extension whose output directory does not exist; done again on what it left, it
  fulfils again and leaves the same directories.
\<close>

theorem purge_idempotent:
  "(\<exists>u. fst (deleteExtensionsBuildOutput w extensions) = Resolved u)
   \<and> (\<exists>u. fst (deleteExtensionsBuildOutput (snd (deleteExtensionsBuildOutput w extensions))
               extensions) = Resolved u)
   \<and> fs (snd (deleteExtensionsBuildOutput (snd (deleteExtensionsBuildOutput w extensions))
               extensions))
       = fs (snd (deleteExtensionsBuildOutput w extensions))"
  by (auto simp: deleteExtensionsBuildOutput_eq rmdir_all_dirs)

lemma sample_purge_dirs:
  "fs (snd (deleteExtensionsBuildOutput batchWatcher [extC, extB]))
     = {''/app/.shopify/bundle'', ''/app/.shopify/bundle/a-out''}"
  by code_simp

theorem purge_idempotent_witness:
  "joinPath [buildOutputPath batchWatcher, outputFolderId extB] \<notin> fs batchWatcher
   \<and> (\<exists>u. fst (deleteExtensionsBuildOutput batchWatcher [extC, extB]) = Resolved u)
   \<and> fs (snd (deleteExtensionsBuildOutput batchWatcher [extC, extB]))
       = {''/app/.shopify/bundle'', ''/app/.shopify/bundle/a-out''}
   \<and> fs (snd (deleteExtensionsBuildOutput
               (snd (deleteExtensionsBuildOutput batchWatcher [extC, extB])) [extC, extB]))
       = {''/app/.shopify/bundle'', ''/app/.shopify/bundle/a-out''}"
proof -
  have "joinPath [buildOutputPath batchWatcher, outputFolderId extB] \<notin> fs batchWatcher"
    by (simp add: batchWatcher_def sampleWatcher_def new_AppEventWatcher_def onEvent_def
        extB_def joinPath_def sampleApp_def)
  with purge_idempotent [of batchWatcher "[extC, extB]"] sample_purge_dirs
  show ?thesis by simp
qed

section \<open>Listeners registered when the watcher is ready\<close>

lemma readyWatcher_ready: "ready readyWatcher"
  by code_simp

lemma readyWatcher_listeners: "readyListeners readyWatcher = [1]"
  by code_simp

text \<open>
  Claim C7. A listener given to \<open>onStart\<close> when the watcher is ready is registered and is
  called, in that very call of \<open>onStart\<close>.
\<close>

theorem late_onStart_listener_invoked:
  assumes "ready w"
  shows "CallReady listener \<in> set (effects_since w (onStart w listener))
         \<and> listener \<in> set (readyListeners (onStart w listener))"
  using assms by (simp add: onStart_def emit_ready_def effects_since_def Let_def)

theorem late_onStart_listener_invoked_witness:
  "ready readyWatcher
   \<and> CallReady 2 \<in> set (effects_since readyWatcher (onStart readyWatcher 2))
   \<and> 2 \<in> set (readyListeners (onStart readyWatcher 2))"
  using late_onStart_listener_invoked [OF readyWatcher_ready, of 2] readyWatcher_ready
  by simp

text \<open>
  Claim C9. A call of \<open>onStart\<close> on a ready watcher emits the event to all the listeners
  registered: each listener that was there is called again, then the new one, and the
  watcher stays ready, so that this happens at each such call.
\<close>

theorem late_onStart_reemits_to_all:
  assumes "ready w"
  shows "effects_since w (onStart w listener) = map CallReady (readyListeners w @ [listener])
         \<and> (\<forall>l \<in> set (readyListeners w).
               CallReady l \<in> set (effects_since w (onStart w listener)))
         \<and> ready (onStart w listener)"
  using assms by (simp add: onStart_def emit_ready_def effects_since_def Let_def)

theorem late_onStart_reemits_to_all_witness:
  "ready readyWatcher
   \<and> ready_calls (trace readyWatcher) = [1]
   \<and> effects_since readyWatcher (onStart readyWatcher 2) = [CallReady 1, CallReady 2]
   \<and> effects_since (onStart readyWatcher 2) (onStart (onStart readyWatcher 2) 3)
       = [CallReady 1, CallReady 2, CallReady 3]"
proof -
  have calls: "ready_calls (trace readyWatcher) = [1]" by code_simp
  have r2: "ready (onStart readyWatcher 2)"
    using late_onStart_reemits_to_all [OF readyWatcher_ready, of 2] by simp
  have l2: "readyListeners (onStart readyWatcher 2) = [1, 2]"
    by (simp add: onStart_def Let_def readyWatcher_ready emit_ready_def readyWatcher_listeners)
  from late_onStart_reemits_to_all [OF readyWatcher_ready, of 2]
    late_onStart_reemits_to_all [OF r2, of 3] readyWatcher_ready calls
  show ?thesis by (simp add: readyWatcher_listeners l2)
qed

section \<open>Calling start() again\<close>

lemma effects_since_self [simp]: "effects_since w w = []"
  by (simp add: effects_since_def)

lemma Rmdir_start_kinds [simp]:
  "mkdirs (map Rmdir ps) = []" "subscriptions (map Rmdir ps) = []"
  "exists_checks (map Rmdir ps) = []" "context_creations (map Rmdir ps) = []"
  by (induction ps) auto

lemma CallAll_start_kinds [simp]:
  "mkdirs (map (\<lambda>l. CallAll l ae) ls) = []" "subscriptions (map (\<lambda>l. CallAll l ae) ls) = []"
  "exists_checks (map (\<lambda>l. CallAll l ae) ls) = []"
  "context_creations (map (\<lambda>l. CallAll l ae) ls) = []"
  by (induction ls) auto

lemma catch_write_start_kinds [simp]:
  "mkdirs (catch_write e) = []" "subscriptions (catch_write e) = []"
  "exists_checks (catch_write e) = []" "context_creations (catch_write e) = []"
  by (cases e; simp add: catch_write_def)+

text \<open>
  A batch has no effect of \<open>start()\<close>: it touches the snapshot, the contexts, the directories
  and the effects only, and among the effects it has none of the kinds that \<open>start()\<close> alone
  has and no call of an \<open>onStart\<close> listener.
\<close>

lemma quietI:
  assumes "w' = w\<lparr>AppEventWatcher.app := a, contexts := c, fs := d, trace := trace w @ acts\<rparr>"
    and "exists_checks acts = []" "mkdirs acts = []" "context_creations acts = []"
      "subscriptions acts = []" "ready_calls acts = []"
  shows "\<exists>a c d acts.
     w' = w\<lparr>AppEventWatcher.app := a, contexts := c, fs := d, trace := trace w @ acts\<rparr>
     \<and> exists_checks acts = [] \<and> mkdirs acts = [] \<and> context_creations acts = []
     \<and> subscriptions acts = [] \<and> ready_calls acts = []"
  using assms by blast

lemma watcher_callback_quiet:
  "\<exists>a c d acts.
     watcher_callback env w handled =
       w\<lparr>AppEventWatcher.app := a, contexts := c, fs := d, trace := trace w @ acts\<rparr>
     \<and> exists_checks acts = [] \<and> mkdirs acts = [] \<and> context_creations acts = []
     \<and> subscriptions acts = [] \<and> ready_calls acts = []"
proof (cases handled)
  case (Rejected e)
  have "watcher_callback env w handled =
          w\<lparr>AppEventWatcher.app := AppEventWatcher.app w, contexts := contexts w, fs := fs w,
            trace := trace w @ catch_write e\<rparr>"
    using Rejected by (simp add: watcher_callback_def)
  then show ?thesis by (rule quietI) simp_all
next
  case (Resolved appEvent)
  show ?thesis
  proof (cases appEvent)
    case None
    have "watcher_callback env w handled =
            w\<lparr>AppEventWatcher.app := AppEventWatcher.app w, contexts := contexts w,
              fs := fs w, trace := trace w @ []\<rparr>"
      using Resolved None by (simp add: watcher_callback_def handle_then_def)
    then show ?thesis by (rule quietI) simp_all
  next
    case (Some ae)
    show ?thesis
    proof (cases "extensionEvents ae = []")
      case True
      from empty_batch_logs [OF this, of env w] Resolved Some
      have "watcher_callback env w handled =
              w\<lparr>AppEventWatcher.app := AppEvent.app ae, contexts := contexts w, fs := fs w,
                trace := trace w
                  @ [OutputDebug ''Change detected, but no extensions were affected'']\<rparr>"
        by simp
      then show ?thesis by (rule quietI) simp_all
    next
      case False
      show ?thesis
      proof (cases "updateContexts env ae (contexts w)")
        case (Rejected e)
        from watcher_callback_update_rejected [OF False Rejected] Resolved Some
        have "watcher_callback env w handled =
                w\<lparr>AppEventWatcher.app := AppEvent.app ae, contexts := contexts w, fs := fs w,
                  trace := trace w @ ([UpdateContexts ae] @ catch_write e)\<rparr>"
          by simp
        then show ?thesis by (rule quietI) simp_all
      next
        case upd: (Resolved ctxs)
        define built where "built = map extension
             (filter (\<lambda>extEvent. type extEvent \<noteq> Deleted) (extensionEvents ae))"
        define acts where "acts = concat (map (\<lambda>ext. snd (build_one env
             (w\<lparr>AppEventWatcher.app := AppEvent.app ae, contexts := ctxs\<rparr>) ext)) built)"
        have kinds: "exists_checks acts = []" "mkdirs acts = []" "context_creations acts = []"
          "subscriptions acts = []" "ready_calls acts = []"
          by (simp_all add: acts_def)
        show ?thesis
        proof (cases "fst (buildExtensions env
                  (w\<lparr>AppEventWatcher.app := AppEvent.app ae, contexts := ctxs\<rparr>) built)")
          case ok: (Resolved results)
          from watcher_callback_batch [OF False upd ok [unfolded built_def]] Resolved Some
          have "watcher_callback env w handled =
            w\<lparr>AppEventWatcher.app := AppEvent.app ae, contexts := ctxs,
              fs := snd (rmdir_all
                (map (\<lambda>ext. joinPath [buildOutputPath w, outputFolderId ext])
                   (map extension
                      (filter (\<lambda>extEvent. type extEvent = Deleted) (extensionEvents ae))))
                (fs w)),
              trace := trace w @ ([UpdateContexts ae] @ acts
                @ map Rmdir (map (\<lambda>ext. joinPath [buildOutputPath w, outputFolderId ext])
                   (map extension
                      (filter (\<lambda>extEvent. type extEvent = Deleted) (extensionEvents ae))))
                @ map (\<lambda>l. CallAll l ae) (allListeners w))\<rparr>"
            by (simp add: acts_def built_def)
          then show ?thesis by (rule quietI) (simp_all add: kinds del: map_map)
        next
          case no: (Rejected e)
          from watcher_callback_batch_rejected [OF False upd no [unfolded built_def]]
            Resolved Some
          have "watcher_callback env w handled =
            w\<lparr>AppEventWatcher.app := AppEvent.app ae, contexts := ctxs, fs := fs w,
              trace := trace w @ ([UpdateContexts ae] @ acts @ catch_write e)\<rparr>"
            by (simp add: acts_def built_def)
          then show ?thesis by (rule quietI) (simp_all add: kinds)
        qed
      qed
    qed
  qed
qed

text \<open>
  One step of a suspended \<open>start()\<close> adds effects and leaves the listeners; only the step
  after the subscription makes the watcher ready and calls the \<open>onStart\<close> listeners.
\<close>

lemma start_resume_step:
  "\<exists>acts. trace (snd (start_resume env w pc)) = trace w @ acts
     \<and> readyListeners (snd (start_resume env w pc)) = readyListeners w
     \<and> (if \<exists>u. pc = AwaitStartFileWatcher (Resolved u)
        then ready (snd (start_resume env w pc)) \<and> ready_calls acts = readyListeners w
        else ready (snd (start_resume env w pc)) = ready w \<and> ready_calls acts = [])"
  by (cases "(env, w, pc)" rule: start_resume.cases)
     (simp_all add: start_mkdir_def rmdir_def mkdir_def Let_def buildExtensions_pair
        emit_ready_def split: settled.splits)

lemma exec_Resume_fields:
  assumes "i < length (pending w)"
  shows "trace (exec env w (Resume i)) = trace (snd (start_resume env w (pending w ! i)))"
    "ready (exec env w (Resume i)) = ready (snd (start_resume env w (pending w ! i)))"
    "readyListeners (exec env w (Resume i))
       = readyListeners (snd (start_resume env w (pending w ! i)))"
  using assms by (simp_all split: prod.splits option.splits)

lemma exec_Resume_idle: "\<not> i < length (pending w) \<Longrightarrow> exec env w (Resume i) = w"
  by simp

lemma exec_Resume_step:
  assumes "i < length (pending w)"
  shows "\<exists>acts. trace (exec env w (Resume i)) = trace w @ acts
     \<and> readyListeners (exec env w (Resume i)) = readyListeners w
     \<and> (if \<exists>u. pending w ! i = AwaitStartFileWatcher (Resolved u)
        then ready (exec env w (Resume i)) \<and> ready_calls acts = readyListeners w
        else ready (exec env w (Resume i)) = ready w \<and> ready_calls acts = [])"
  using start_resume_step [of env w "pending w ! i"]
  by (simp only: exec_Resume_fields [OF assms])

section \<open>What one start() has done so far\<close>

lemma start_inv_call:
  assumes "not_started_inv v w se"
  shows "start_inv v (start_call w) (se @ effects_since w (start_call w)) 0"
  using assms
  by (simp add: not_started_inv_def start_inv_def start_call_def Let_def effects_since_def
      fileExists_def subscribed_def)

lemma start_inv_call_again: "start_inv v w se n \<Longrightarrow> start_call w = w"
  by (simp add: start_inv_def start_call_def)

lemma start_inv_pending:
  assumes "start_inv v w se n" "i < length (pending w)"
  shows "i = 0 \<and> (\<exists>pc. pending w = [pc])"
  using assms by (auto simp: start_inv_def split: list.splits)

text \<open>One more step of the one suspended \<open>start()\<close> brings it to a later stage or ends it.\<close>

lemma start_inv_resume:
  assumes inv: "start_inv v w se n" and p: "pending w = [pc]"
  shows "\<exists>n'. start_inv v (exec env w (Resume 0))
                (se @ effects_since w (exec env w (Resume 0))) n'"
proof -
  from inv p have n: "stage pc = n" by (simp add: start_inv_def)
  from inv have se: "exists_checks se = [buildOutputPath v]"
       "purges se = (if 1 \<le> n \<and> buildOutputPath v \<in> fs v then [buildOutputPath v] else [])"
       "mkdirs se = (if 2 \<le> n then [buildOutputPath v] else [])"
       "context_creations se =
          (if 3 \<le> n
           then [filter isESBuildExtension (realExtensions (AppEventWatcher.app v))] else [])"
       "builds se = (if 4 \<le> n then map handle (realExtensions (AppEventWatcher.app v)) else [])"
       "subscriptions se = (if 5 \<le> n then [AppEventWatcher.app v] else [])"
    by (simp_all add: start_inv_def)
  from inv n have static: "started w" "buildOutputPath w = buildOutputPath v"
      "n < 5 \<longrightarrow> AppEventWatcher.app w = AppEventWatcher.app v \<and> subscriptions (trace w) = []"
      "\<not> ready w" "ready_calls se = []"
      "n = 0 \<longrightarrow> pc = AwaitFileExists (buildOutputPath v \<in> fs v)"
      "n = 1 \<longrightarrow> buildOutputPath v \<in> fs v"
    using p by (auto simp: start_inv_def subscribed_def intro: stage.cases [of pc])
  show ?thesis
  proof (cases pc)
    case (AwaitFileExists b)
    show ?thesis
    proof (cases b)
      case True
      with AwaitFileExists p n se static show ?thesis
        by (intro exI [of _ 1])
           (simp add: start_inv_def rmdir_def effects_since_def subscribed_def)
    next
      case False
      with AwaitFileExists p n se static show ?thesis
        by (intro exI [of _ 2])
           (simp add: start_inv_def start_mkdir_def mkdir_def effects_since_def subscribed_def)
    qed
  next
    case (AwaitRmdir r)
    show ?thesis
    proof (cases r)
      case (Rejected e)
      with AwaitRmdir p n se static show ?thesis
        by (intro exI [of _ 1]) (simp add: start_inv_def effects_since_def subscribed_def)
    next
      case (Resolved u)
      with AwaitRmdir p n se static show ?thesis
        by (intro exI [of _ 2])
           (simp add: start_inv_def start_mkdir_def mkdir_def effects_since_def subscribed_def)
    qed
  next
    case (AwaitMkdir r)
    show ?thesis
    proof (cases r)
      case (Rejected e)
      with AwaitMkdir p n se static show ?thesis
        by (intro exI [of _ 2]) (simp add: start_inv_def effects_since_def subscribed_def)
    next
      case (Resolved u)
      show ?thesis
      proof (cases "createContexts env
                      (filter isESBuildExtension (realExtensions (AppEventWatcher.app w)))
                      (contexts w)")
        case cc: (Rejected e)
        with Resolved AwaitMkdir p n se static show ?thesis
          by (intro exI [of _ 3])
             (simp add: start_inv_def Let_def effects_since_def subscribed_def)
      next
        case cc: (Resolved ctxs)
        with Resolved AwaitMkdir p n se static show ?thesis
          by (intro exI [of _ 3])
             (simp add: start_inv_def Let_def effects_since_def subscribed_def)
      qed
    qed
  next
    case (AwaitCreateContexts r)
    show ?thesis
    proof (cases r)
      case (Rejected e)
      with AwaitCreateContexts p n se static show ?thesis
        by (intro exI [of _ 3]) (simp add: start_inv_def effects_since_def subscribed_def)
    next
      case (Resolved u)
      with AwaitCreateContexts p n se static show ?thesis
        by (intro exI [of _ 4])
           (simp add: start_inv_def buildExtensions_pair effects_since_def subscribed_def)
    qed
  next
    case (AwaitBuildExtensions r)
    show ?thesis
    proof (cases r)
      case (Rejected e)
      with AwaitBuildExtensions p n se static show ?thesis
        by (intro exI [of _ 4]) (simp add: start_inv_def effects_since_def subscribed_def)
    next
      case (Resolved u)
      with AwaitBuildExtensions p n se static show ?thesis
        by (intro exI [of _ 5]) (simp add: start_inv_def effects_since_def subscribed_def)
    qed
  next
    case (AwaitStartFileWatcher r)
    show ?thesis
    proof (cases r)
      case (Rejected e)
      with AwaitStartFileWatcher p n se static show ?thesis
        by (intro exI [of _ 5]) (simp add: start_inv_def effects_since_def subscribed_def)
    next
      case (Resolved u)
      with AwaitStartFileWatcher p n se static show ?thesis
        by (intro exI [of _ 6])
           (simp add: start_inv_def emit_ready_def effects_since_def subscribed_def)
    qed
  qed
qed

lemma start_inv_batch:
  assumes inv: "start_inv v w se n" and n: "5 \<le> n"
  shows "start_inv v (watcher_callback env w handled) se n"
proof -
  from watcher_callback_quiet [of env w handled] obtain a c d new where
    eq: "watcher_callback env w handled =
           w\<lparr>AppEventWatcher.app := a, contexts := c, fs := d, trace := trace w @ new\<rparr>"
    by blast
  from inv n show ?thesis
    unfolding eq by (simp add: start_inv_def)
qed

text \<open>
  Whatever happens to a watcher that is not started, or that one \<open>start()\<close> has brought
  somewhere, it is again such a watcher, and the effects of the calls of \<open>start()\<close> are
  those of that one call.
\<close>

lemma tracked_exec:
  assumes "tracked v w se"
  shows "tracked v (exec env w ev) (se @ start_step_effects env w ev)"
proof -
  from assms consider (fresh) "not_started_inv v w se" | (begun) n where "start_inv v w se n"
    by (auto simp: tracked_def)
  then show ?thesis
  proof cases
    case fresh
    show ?thesis
    proof (cases ev)
      case Start
      from start_inv_call [OF fresh] Start show ?thesis
        by (auto simp: tracked_def start_step_effects_def)
    next
      case (Resume i)
      with fresh show ?thesis
        by (simp add: tracked_def start_step_effects_def not_started_inv_def)
    next
      case (OnStart listener)
      with fresh show ?thesis
        by (simp add: tracked_def start_step_effects_def not_started_inv_def onStart_def Let_def)
    next
      case (OnEvent listener)
      with fresh show ?thesis
        by (simp add: tracked_def start_step_effects_def not_started_inv_def onEvent_def)
    next
      case (WatcherCallback handled)
      with fresh show ?thesis
        by (simp add: tracked_def start_step_effects_def not_started_inv_def subscribed_def)
    qed
  next
    case begun
    show ?thesis
    proof (cases ev)
      case Start
      with begun show ?thesis
        by (auto simp: tracked_def start_step_effects_def start_inv_call_again)
    next
      case (Resume i)
      show ?thesis
      proof (cases "i < length (pending w)")
        case False
        with begun Resume show ?thesis
          by (auto simp: tracked_def start_step_effects_def)
      next
        case True
        from start_inv_pending [OF begun True] obtain pc where i: "i = 0"
          and p: "pending w = [pc]" by blast
        from start_inv_resume [OF begun p, of env] Resume i show ?thesis
          by (auto simp: tracked_def start_step_effects_def simp del: exec.simps)
      qed
    next
      case (OnStart listener)
      with begun have "start_inv v (exec env w ev) se n"
        by (auto simp: start_inv_def onStart_def Let_def emit_ready_def subscribed_def)
      with OnStart show ?thesis
        by (auto simp: tracked_def start_step_effects_def simp del: exec.simps)
    next
      case (OnEvent listener)
      with begun have "start_inv v (exec env w ev) se n"
        by (auto simp: start_inv_def onEvent_def subscribed_def)
      with OnEvent show ?thesis
        by (auto simp: tracked_def start_step_effects_def simp del: exec.simps)
    next
      case (WatcherCallback handled)
      have "start_inv v (exec env w ev) se n"
      proof (cases "subscribed w")
        case True
        with begun have "5 \<le> n" by (auto simp: start_inv_def)
        from start_inv_batch [OF begun this] True WatcherCallback show ?thesis by simp
      next
        case False
        with begun WatcherCallback show ?thesis by simp
      qed
      with WatcherCallback show ?thesis
        by (auto simp: tracked_def start_step_effects_def simp del: exec.simps)
    qed
  qed
qed

text \<open>
  Every event adds to the effects of the watcher, and the events that are not of
  \<open>start()\<close> add none of the kinds that \<open>start()\<close> alone has.
\<close>

lemma exec_adds:
  "\<exists>acts. trace (exec env w ev) = trace w @ acts
     \<and> (case ev of
          Start \<Rightarrow> True
        | Resume i \<Rightarrow> True
        | _ \<Rightarrow> exists_checks acts = [] \<and> mkdirs acts = [] \<and> context_creations acts = []
               \<and> subscriptions acts = [])"
proof (cases ev)
  case Start
  then show ?thesis by (simp add: start_call_def Let_def)
next
  case (Resume i)
  show ?thesis
  proof (cases "i < length (pending w)")
    case True
    from exec_Resume_step [OF this, of env] Resume show ?thesis by auto
  next
    case False
    with Resume show ?thesis by simp
  qed
next
  case (OnStart listener)
  then show ?thesis by (simp add: onStart_def Let_def emit_ready_def)
next
  case (OnEvent listener)
  then show ?thesis by (simp add: onEvent_def)
next
  case (WatcherCallback handled)
  from watcher_callback_quiet [of env w handled] obtain a c d acts where
    "watcher_callback env w handled =
       w\<lparr>AppEventWatcher.app := a, contexts := c, fs := d, trace := trace w @ acts\<rparr>"
    "exists_checks acts = []" "mkdirs acts = []" "context_creations acts = []"
    "subscriptions acts = []"
    by blast
  with WatcherCallback show ?thesis by (cases "subscribed w") auto
qed

lemma not_ready_silent_exec:
  assumes "\<not> ready w \<longrightarrow> ready_calls (trace w) = []"
  shows "\<not> ready (exec env w ev) \<longrightarrow> ready_calls (trace (exec env w ev)) = []"
proof (cases ev)
  case Start
  with assms show ?thesis by (simp add: start_call_def Let_def)
next
  case (Resume i)
  show ?thesis
  proof (cases "i < length (pending w)")
    case True
    from exec_Resume_step [OF this, of env] assms Resume show ?thesis
      by (auto split: if_splits)
  next
    case False
    with assms Resume show ?thesis by simp
  qed
next
  case (OnStart listener)
  with assms show ?thesis by (simp add: onStart_def Let_def emit_ready_def)
next
  case (OnEvent listener)
  with assms show ?thesis by (simp add: onEvent_def)
next
  case (WatcherCallback handled)
  from watcher_callback_quiet [of env w handled] obtain a c d acts where
    "watcher_callback env w handled =
       w\<lparr>AppEventWatcher.app := a, contexts := c, fs := d, trace := trace w @ acts\<rparr>"
    "ready_calls acts = []"
    by blast
  with assms WatcherCallback show ?thesis by (cases "subscribed w") auto
qed

lemma start_alone_exec:
  assumes "start_alone w se"
  shows "start_alone (exec env w ev) (se @ start_step_effects env w ev)"
proof -
  from exec_adds [of env w ev] obtain acts where
    tr: "trace (exec env w ev) = trace w @ acts"
    and quiet: "case ev of
          Start \<Rightarrow> True
        | Resume i \<Rightarrow> True
        | _ \<Rightarrow> exists_checks acts = [] \<and> mkdirs acts = [] \<and> context_creations acts = []
               \<and> subscriptions acts = []"
    by blast
  from tr have eff: "effects_since w (exec env w ev) = acts"
    by (rule effects_since_append)
  from assms have silent: "\<not> ready w \<longrightarrow> ready_calls (trace w) = []"
    by (simp add: start_alone_def)
  have "exists_checks (trace (exec env w ev)) = exists_checks (se @ start_step_effects env w ev)
      \<and> mkdirs (trace (exec env w ev)) = mkdirs (se @ start_step_effects env w ev)
      \<and> context_creations (trace (exec env w ev))
          = context_creations (se @ start_step_effects env w ev)
      \<and> subscriptions (trace (exec env w ev)) = subscriptions (se @ start_step_effects env w ev)"
    using assms quiet tr eff
    by (cases ev) (simp_all add: start_alone_def start_step_effects_def del: exec.simps)
  with not_ready_silent_exec [OF silent, of env ev] show ?thesis
    by (simp add: start_alone_def del: exec.simps)
qed

lemma ready_once_exec:
  assumes t: "tracked v w se" and once: "ready_once w"
    and ok: "case ev of OnStart listener \<Rightarrow> \<not> ready w | _ \<Rightarrow> True"
  shows "ready_once (exec env w ev)"
proof (cases ev)
  case Start
  with once show ?thesis by (simp add: ready_once_def start_call_def Let_def)
next
  case (Resume i)
  show ?thesis
  proof (cases "i < length (pending w)")
    case False
    with once Resume show ?thesis by simp
  next
    case True
    from t True obtain n where inv: "start_inv v w se n"
      by (auto simp: tracked_def not_started_inv_def)
    from start_inv_pending [OF inv True] obtain pc where p: "pending w = [pc]" and i: "i = 0"
      by blast
    from inv p have "\<not> ready w"
      by (auto simp: start_inv_def intro: stage.cases [of pc])
    with once have none: "ready_calls (trace w) = []" by (simp add: ready_once_def)
    from exec_Resume_step [OF True, of env] none \<open>\<not> ready w\<close> Resume show ?thesis
      by (auto simp: ready_once_def split: if_splits)
  qed
next
  case (OnStart listener)
  with ok have "\<not> ready w" by simp
  with once OnStart show ?thesis by (simp add: ready_once_def onStart_def Let_def)
next
  case (OnEvent listener)
  with once show ?thesis by (simp add: ready_once_def onEvent_def)
next
  case (WatcherCallback handled)
  from watcher_callback_quiet [of env w handled] obtain a c d acts where
    "watcher_callback env w handled =
       w\<lparr>AppEventWatcher.app := a, contexts := c, fs := d, trace := trace w @ acts\<rparr>"
    "ready_calls acts = []"
    by blast
  with once WatcherCallback show ?thesis
    by (cases "subscribed w") (auto simp: ready_once_def)
qed

lemma session_tracked:
  assumes "tracked v w se" "start_alone w se"
  shows "tracked v (run env w events) (se @ start_effects env w events)
       \<and> start_alone (run env w events) (se @ start_effects env w events)"
  using assms
proof (induction events arbitrary: w se)
  case Nil
  then show ?case by (simp add: run_def)
next
  case (Cons ev events)
  from Cons.IH [OF tracked_exec [OF Cons.prems(1)] start_alone_exec [OF Cons.prems(2)], of env ev]
  show ?case by (simp add: run_def del: exec.simps)
qed

lemma session_ready_once:
  assumes "tracked v w se" "ready_once w" "no_late_onStart env w events"
  shows "ready_once (run env w events)"
  using assms
proof (induction events arbitrary: w se)
  case Nil
  then show ?case by (simp add: run_def)
next
  case (Cons ev events)
  from Cons.prems(3) have ok: "case ev of OnStart listener \<Rightarrow> \<not> ready w | _ \<Rightarrow> True"
    and rest: "no_late_onStart env (exec env w ev) events"
    by simp_all
  from Cons.IH [OF tracked_exec [OF Cons.prems(1)] ready_once_exec [OF Cons.prems(1,2) ok] rest]
  show ?case by (simp add: run_def del: exec.simps)
qed

text \<open>
  The builds do not depend on what \<open>start()\<close> itself keeps in the watcher.
\<close>

lemma build_one_cong:
  assumes "contexts w' = contexts w" "AppEventWatcher.app w' = AppEventWatcher.app w"
    "AppEventWatcher.appURL w' = AppEventWatcher.appURL w"
    "buildOutputPath w' = buildOutputPath w"
  shows "build_one env w' ext = build_one env w ext"
proof -
  have "buildExtension env w' ext = buildExtension env w ext"
    using assms by (simp add: buildExtension_def Let_def)
  then have "build_try env w' ext = build_try env w ext"
    using assms by (cases "contexts w (handle ext)") (simp_all add: build_try_def)
  then show ?thesis by (simp add: build_one_def)
qed

text \<open>
  When \<open>createContexts\<close> and \<open>startFileWatcher\<close> fulfil and the promise of each build
  fulfils, one call of \<open>start()\<close> whose awaited promises all settle makes the watcher
  ready.
\<close>

lemma start_completes:
  assumes fresh: "\<not> started v" "pending v = []"
    and cc: "createContexts env
               (filter isESBuildExtension (realExtensions (AppEventWatcher.app v)))
               (contexts v) = Resolved ctxs"
    and built: "\<forall>ext \<in> set (realExtensions (AppEventWatcher.app v)).
                  fulfils env (v\<lparr>contexts := ctxs\<rparr>) ext"
    and sf: "startFileWatcher env (AppEventWatcher.app v) = Resolved ()"
  shows "ready (run env v (Start # replicate 6 (Resume 0)))"
proof -
  from buildExtensions_fulfils [OF built] obtain results where
    "fst (buildExtensions env (v\<lparr>contexts := ctxs\<rparr>) (realExtensions (AppEventWatcher.app v)))
       = Resolved results" ..
  then have "Promise_all (map (\<lambda>ext. fst (build_one env (v\<lparr>contexts := ctxs\<rparr>) ext))
               (realExtensions (AppEventWatcher.app v))) = Resolved results"
    by (simp add: buildExtensions_promise)
  then have res: "Promise_all (map (\<lambda>ext. fst (build_one env w' ext))
                    (realExtensions (AppEventWatcher.app v))) = Resolved results"
    if "contexts w' = ctxs" "AppEventWatcher.app w' = AppEventWatcher.app v"
      "AppEventWatcher.appURL w' = AppEventWatcher.appURL v"
      "buildOutputPath w' = buildOutputPath v" for w'
    using that by (simp add: build_one_cong [of w' "v\<lparr>contexts := ctxs\<rparr>"])
  show ?thesis
  proof (cases "buildOutputPath v \<in> fs v")
    case True
    with fresh cc sf res show ?thesis
      by (simp add: run_def eval_nat_numeral start_call_def Let_def fileExists_def
            start_mkdir_def mkdir_def rmdir_def buildExtensions_pair emit_ready_def)
  next
    case False
    with fresh cc sf res show ?thesis
      by (simp add: run_def eval_nat_numeral start_call_def Let_def fileExists_def
            start_mkdir_def mkdir_def rmdir_def buildExtensions_pair emit_ready_def)
  qed
qed

text \<open>
  Claim C2, as stated, fails: a listener registered before \<open>start()\<close> is called when
  \<open>start()\<close> ends and again when another listener is registered afterwards. Here listener
  \<open>1\<close> is registered, \<open>start()\<close> is called once and runs to its end, and listener \<open>2\<close> is
  registered: listener \<open>1\<close> has been called twice.
\<close>

theorem ready_twice_counterexample:
  "count_list
     (ready_calls (trace (run sampleEnv sampleWatcher
        [OnStart 1, Start, Resume 0, Resume 0, Resume 0, Resume 0, Resume 0, OnStart 2])))
     1 = 2"
  by code_simp

text \<open>
  Claim C2, amended. Take a new watcher and any session: calls of \<open>start()\<close> and steps of
  the suspended calls, interleaved in any way, registrations of listeners at any time,
  batches. Nothing but \<open>start()\<close> looks for the output directory, makes it, creates the
  esbuild contexts or subscribes to the file watcher, and the session does each of these at
  most once; the calls of \<open>start()\<close> together remove the output directory at most once and
  build at most once each extension of the app, in their order; they call the \<open>onStart\<close>
  listeners registered at most once each, in the order of registration, and no such
  listener is called while the watcher is not ready. Once the
  watcher is ready each step of the sequence has been done exactly once (the removal if
  and only if the directory was there when the watcher was made). And in a session in
  which no listener is given to \<open>onStart\<close> when the watcher is ready, each \<open>onStart\<close>
  listener registered has been called exactly once when the watcher is ready. (What
  \<open>onStart\<close> does on a ready watcher is claim C9.)
\<close>

theorem start_idempotent:
  assumes new: "v = new_AppEventWatcher a url outputPath dirs"
    and w: "w = run env v events"
    and se: "se = start_effects env v events"
  shows "prefix (exists_checks (trace w)) [buildOutputPath v]
       \<and> prefix (purges se) [buildOutputPath v]
       \<and> prefix (mkdirs (trace w)) [buildOutputPath v]
       \<and> prefix (context_creations (trace w)) [filter isESBuildExtension (realExtensions a)]
       \<and> prefix (builds se) (map handle (realExtensions a))
       \<and> prefix (subscriptions (trace w)) [a]
       \<and> prefix (ready_calls se) (readyListeners w)
       \<and> (\<not> ready w \<longrightarrow> ready_calls (trace w) = [])
       \<and> (ready w \<longrightarrow>
            exists_checks (trace w) = [buildOutputPath v]
          \<and> purges se = (if buildOutputPath v \<in> dirs then [buildOutputPath v] else [])
          \<and> mkdirs (trace w) = [buildOutputPath v]
          \<and> context_creations (trace w) = [filter isESBuildExtension (realExtensions a)]
          \<and> builds se = map handle (realExtensions a)
          \<and> subscriptions (trace w) = [a])
       \<and> (no_late_onStart env v events \<and> ready w \<longrightarrow>
            ready_calls (trace w) = readyListeners w)"
proof -
  from new have v: "AppEventWatcher.app v = a" "fs v = dirs"
    by (simp_all add: new_AppEventWatcher_def)
  from new have fresh: "not_started_inv v v []"
    by (simp add: not_started_inv_def new_AppEventWatcher_def)
  then have t0: "tracked v v []" by (simp add: tracked_def)
  from new have a0: "start_alone v []"
    by (simp add: start_alone_def new_AppEventWatcher_def)
  from new have r0: "ready_once v"
    by (simp add: ready_once_def new_AppEventWatcher_def)
  from session_tracked [OF t0 a0, of env events]
  have t: "tracked v w se" and alone: "start_alone w se"
    by (simp_all add: w se)
  from alone have whole: "exists_checks (trace w) = exists_checks se"
      "mkdirs (trace w) = mkdirs se" "context_creations (trace w) = context_creations se"
      "subscriptions (trace w) = subscriptions se"
    and silent: "\<not> ready w \<longrightarrow> ready_calls (trace w) = []"
    by (simp_all add: start_alone_def)
  have once: "no_late_onStart env v events \<and> ready w \<longrightarrow>
                ready_calls (trace w) = readyListeners w"
  proof
    assume "no_late_onStart env v events \<and> ready w"
    with session_ready_once [OF t0 r0, of env events] show
      "ready_calls (trace w) = readyListeners w"
      by (simp add: ready_once_def w)
  qed
  from t consider (fresh) "not_started_inv v w se" | (begun) n where "start_inv v w se n"
    by (auto simp: tracked_def)
  then have "prefix (exists_checks se) [buildOutputPath v]
       \<and> prefix (purges se) [buildOutputPath v]
       \<and> prefix (mkdirs se) [buildOutputPath v]
       \<and> prefix (context_creations se) [filter isESBuildExtension (realExtensions a)]
       \<and> prefix (builds se) (map handle (realExtensions a))
       \<and> prefix (subscriptions se) [a]
       \<and> prefix (ready_calls se) (readyListeners w)
       \<and> (ready w \<longrightarrow>
            exists_checks se = [buildOutputPath v]
          \<and> purges se = (if buildOutputPath v \<in> dirs then [buildOutputPath v] else [])
          \<and> mkdirs se = [buildOutputPath v]
          \<and> context_creations se = [filter isESBuildExtension (realExtensions a)]
          \<and> builds se = map handle (realExtensions a)
          \<and> subscriptions se = [a])"
  proof cases
    case fresh
    then show ?thesis by (simp add: not_started_inv_def)
  next
    case begun
    then have se: "exists_checks se = [buildOutputPath v]"
       "purges se = (if 1 \<le> n \<and> buildOutputPath v \<in> dirs then [buildOutputPath v] else [])"
       "mkdirs se = (if 2 \<le> n then [buildOutputPath v] else [])"
       "context_creations se =
          (if 3 \<le> n then [filter isESBuildExtension (realExtensions a)] else [])"
       "builds se = (if 4 \<le> n then map handle (realExtensions a) else [])"
       "subscriptions se = (if 5 \<le> n then [a] else [])"
       "prefix (ready_calls se) (readyListeners w)"
      and r: "ready w \<longleftrightarrow> n = 6"
      by (simp_all add: start_inv_def v)
    show ?thesis by (simp add: se r)
  qed
  with silent once show ?thesis by (simp only: whole) blast
qed

lemma stale_session_ok: "no_late_onStart sampleEnv staleWatcher sampleSession"
  by code_simp

lemma stale_session_ready: "ready (run sampleEnv staleWatcher sampleSession)"
  by code_simp

lemma stale_session_listeners:
  "readyListeners (run sampleEnv staleWatcher sampleSession) = [1, 2]"
  by code_simp

lemma late_session_late: "\<not> no_late_onStart sampleEnv staleWatcher lateSession"
  by code_simp

lemma late_session_ready: "ready (run sampleEnv staleWatcher lateSession)"
  by code_simp

lemma late_session_calls:
  "ready_calls (trace (run sampleEnv staleWatcher lateSession)) = [1, 2, 1, 2, 3]"
  by code_simp

theorem start_idempotent_witness:
  "staleWatcher = new_AppEventWatcher sampleApp None None
       {''/app/.shopify/bundle'', ''/app/.shopify/bundle/old-out''}
   \<and> no_late_onStart sampleEnv staleWatcher sampleSession
   \<and> ready (run sampleEnv staleWatcher sampleSession)
   \<and> exists_checks (trace (run sampleEnv staleWatcher sampleSession))
       = [''/app/.shopify/bundle'']
   \<and> purges (start_effects sampleEnv staleWatcher sampleSession) = [''/app/.shopify/bundle'']
   \<and> mkdirs (trace (run sampleEnv staleWatcher sampleSession)) = [''/app/.shopify/bundle'']
   \<and> context_creations (trace (run sampleEnv staleWatcher sampleSession)) = [[extB]]
   \<and> builds (start_effects sampleEnv staleWatcher sampleSession) = [''a'', ''b'', ''c'']
   \<and> subscriptions (trace (run sampleEnv staleWatcher sampleSession)) = [sampleApp]
   \<and> ready_calls (trace (run sampleEnv staleWatcher sampleSession)) = [1, 2]
   \<and> \<not> no_late_onStart sampleEnv staleWatcher lateSession
   \<and> ready (run sampleEnv staleWatcher lateSession)
   \<and> ready_calls (trace (run sampleEnv staleWatcher lateSession)) = [1, 2, 1, 2, 3]
   \<and> purges (start_effects sampleEnv staleWatcher lateSession) = [''/app/.shopify/bundle'']
   \<and> mkdirs (trace (run sampleEnv staleWatcher lateSession)) = [''/app/.shopify/bundle'']
   \<and> builds (start_effects sampleEnv staleWatcher lateSession) = [''a'', ''b'', ''c'']
   \<and> subscriptions (trace (run sampleEnv staleWatcher lateSession)) = [sampleApp]"
proof -
  have vals: "buildOutputPath staleWatcher = ''/app/.shopify/bundle''"
    "map handle (realExtensions sampleApp) = [''a'', ''b'', ''c'']"
    "filter isESBuildExtension (realExtensions sampleApp) = [extB]"
    by (simp_all add: staleWatcher_def new_AppEventWatcher_def joinPath_def sampleApp_def
        extA_def extB_def extC_def)
  note first = start_idempotent [OF staleWatcher_def refl refl, of sampleEnv sampleSession]
  note second = start_idempotent [OF staleWatcher_def refl refl, of sampleEnv lateSession]
  from first stale_session_ok stale_session_ready
  have "exists_checks (trace (run sampleEnv staleWatcher sampleSession))
       = [''/app/.shopify/bundle'']
   \<and> purges (start_effects sampleEnv staleWatcher sampleSession) = [''/app/.shopify/bundle'']
   \<and> mkdirs (trace (run sampleEnv staleWatcher sampleSession)) = [''/app/.shopify/bundle'']
   \<and> context_creations (trace (run sampleEnv staleWatcher sampleSession)) = [[extB]]
   \<and> builds (start_effects sampleEnv staleWatcher sampleSession) = [''a'', ''b'', ''c'']
   \<and> subscriptions (trace (run sampleEnv staleWatcher sampleSession)) = [sampleApp]
   \<and> ready_calls (trace (run sampleEnv staleWatcher sampleSession)) = [1, 2]"
    by (simp add: vals stale_session_listeners)
  moreover from second late_session_ready
  have "purges (start_effects sampleEnv staleWatcher lateSession) = [''/app/.shopify/bundle'']
   \<and> mkdirs (trace (run sampleEnv staleWatcher lateSession)) = [''/app/.shopify/bundle'']
   \<and> builds (start_effects sampleEnv staleWatcher lateSession) = [''a'', ''b'', ''c'']
   \<and> subscriptions (trace (run sampleEnv staleWatcher lateSession)) = [sampleApp]"
    by (simp add: vals)
  ultimately show ?thesis
    using staleWatcher_def stale_session_ok stale_session_ready late_session_late
      late_session_ready late_session_calls
    by blast
qed

end
